theory Spec2Isabelle
  imports Main
begin

section \<open>Python strings\<close>

text \<open>
  A Python \<open>str\<close> is a sequence of Unicode code points. Field names of a FIT file may
  hold any of them, so a string is a list of code points, not of bytes. The literals of
  the script are ASCII and are written with \<open>lit\<close>.
\<close>

type_synonym codepoint = nat
type_synonym pystr = "codepoint list"

definition lit :: "string \<Rightarrow> pystr" where
  "lit s = map of_char s"

text \<open>
  \<open>str.lower()\<close>. An ASCII code point is mapped on its own: \<open>A\<close>..\<open>Z\<close> to \<open>a\<close>..\<open>z\<close>,
  every other one to itself. The lower-casing of a code point outside ASCII comes from
  the Unicode tables, which are not part of the script: it is the parameter \<open>u\<close>. It
  receives the text before the code point, the code point and the text after it, and
  returns the replacement text, so that a mapping to several code points and a mapping
  that depends on the context (the final sigma) are both covered.
\<close>

type_synonym unicode_lower = "pystr \<Rightarrow> codepoint \<Rightarrow> pystr \<Rightarrow> pystr"

definition lower_codepoint :: "unicode_lower \<Rightarrow> pystr \<Rightarrow> codepoint \<Rightarrow> pystr \<Rightarrow> pystr" where
  "lower_codepoint u pre c suf =
     (if c < 128 then [if 65 \<le> c \<and> c \<le> 90 then c + 32 else c] else u pre c suf)"

fun lower_from :: "unicode_lower \<Rightarrow> pystr \<Rightarrow> pystr \<Rightarrow> pystr" where
  "lower_from u pre [] = []"
| "lower_from u pre (c # cs) = lower_codepoint u pre c cs @ lower_from u (pre @ [c]) cs"

definition lower :: "unicode_lower \<Rightarrow> pystr \<Rightarrow> pystr" where
  "lower u s = lower_from u [] s"

text \<open>\<open>sub in s\<close> on strings: \<open>sub\<close> occurs in \<open>s\<close> as a contiguous run.\<close>

fun startswith :: "pystr \<Rightarrow> pystr \<Rightarrow> bool" where
  "startswith s [] = True"
| "startswith [] (p # ps) = False"
| "startswith (c # cs) (p # ps) = (c = p \<and> startswith cs ps)"

fun str_in :: "pystr \<Rightarrow> pystr \<Rightarrow> bool" where
  "str_in sub [] = (sub = [])"
| "str_in sub (c # cs) = (startswith (c # cs) sub \<or> str_in sub cs)"

text \<open>\<open>str(i)\<close> of a non-negative integer: its decimal digits.\<close>

fun str_nat :: "nat \<Rightarrow> pystr" where
  "str_nat n = (if n < 10 then [48 + n] else str_nat (n div 10) @ [48 + n mod 10])"

declare str_nat.simps [simp del]

section \<open>The decoded messages\<close>

text \<open>
  The objects the decoding library hands to the script, with the attributes the script
  reads. A field's definition object \<open>f.field\<close> may be \<open>None\<close>. When it is there it has a
  truth value, the one \<open>bool(f.field)\<close> gives (true for an instance of a class that
  defines neither \<open>__bool__\<close> nor \<open>__len__\<close>), and it may or may not carry the attribute
  \<open>is_developer\<close> (\<open>None\<close> here: no such attribute; \<open>Some b\<close>: the attribute, with truth
  value \<open>b\<close>). A name and the units are a string or \<open>None\<close>. A value is any Python
  value, of the type \<open>'v\<close>, or \<open>None\<close>.
\<close>

record field_def =
  truth :: bool
  is_developer :: "bool option"

record 'v field_data =
  field :: "field_def option"
  name :: "pystr option"
  fvalue :: "'v option"
  units :: "pystr option"

datatype 'v message = Message (fields: "'v field_data list")

text \<open>
  Modelled from the spec: \<open>Message.get_value\<close> of the decoding library, which is not in
  the repository: the value of the message's field of that name, \<open>None\<close> when the
  message has no such field.
\<close>

definition get_value :: "'v message \<Rightarrow> pystr \<Rightarrow> 'v option" where
  "get_value m n =
     (case find (\<lambda>f. name f = Some n) (fields m) of None \<Rightarrow> None | Some f \<Rightarrow> fvalue f)"

text \<open>
  The opened file, as the script uses it: the sequence of decoded messages of each
  message type.
\<close>

datatype 'v fitfile = FitFile (get_messages: "pystr \<Rightarrow> 'v message list")

section \<open>Formatting and standard output\<close>

text \<open>
  A replacement field of an f-string: \<open>None\<close> is written \<open>None\<close>, a string as it is, a
  value by its own text conversion \<open>fmt\<close>, which belongs to the value's type.
\<close>

definition format_str :: "pystr option \<Rightarrow> pystr" where
  "format_str s = (case s of None \<Rightarrow> lit ''None'' | Some t \<Rightarrow> t)"

definition format_value :: "('v \<Rightarrow> pystr) \<Rightarrow> 'v option \<Rightarrow> pystr" where
  "format_value fmt v = (case v of None \<Rightarrow> lit ''None'' | Some x \<Rightarrow> fmt x)"

text \<open>
  Standard output is the sequence of the texts printed, one per call of \<open>print\<close>; each
  is written followed by a line break.
\<close>

type_synonym stdout = "pystr list"

definition print :: "pystr \<Rightarrow> stdout \<Rightarrow> stdout" where
  "print s out = out @ [s]"

definition stdout_text :: "stdout \<Rightarrow> pystr" where
  "stdout_text out = concat (map (\<lambda>s. s @ [10]) out)"

section \<open>The script\<close>

text \<open>
  The script has no \<open>raise\<close> of its own. What can raise in the code it runs is the read of
  an attribute that is not there; the error is a value of the model.
\<close>

datatype py_error = AttributeError

text \<open>
  \<open>f.field.is_developer\<close> raises when \<open>f.field\<close> is \<open>None\<close> or has no such attribute;
  \<open>hasattr(f.field, "is_developer")\<close> tells whether the read succeeds. As an operand of
  \<open>and\<close>, \<open>None\<close> is false and an object has its own truth value.
\<close>

definition getattr_is_developer :: "field_def option \<Rightarrow> py_error + bool" where
  "getattr_is_developer d =
     (case d of
        None \<Rightarrow> Inl AttributeError
      | Some x \<Rightarrow> (case is_developer x of None \<Rightarrow> Inl AttributeError | Some b \<Rightarrow> Inr b))"

definition hasattr_is_developer :: "field_def option \<Rightarrow> bool" where
  "hasattr_is_developer d = (case getattr_is_developer d of Inl e \<Rightarrow> False | Inr b \<Rightarrow> True)"

definition truthy :: "field_def option \<Rightarrow> bool" where
  "truthy d = (case d of None \<Rightarrow> False | Some x \<Rightarrow> truth x)"

text \<open>
  The condition of the first comprehension,
  \<open>f.field and hasattr(f.field, "is_developer") and f.field.is_developer\<close>:
  \<open>and\<close> stops at the first false operand.
\<close>

definition is_developer_field :: "'v field_data \<Rightarrow> py_error + bool" where
  "is_developer_field f =
     (if \<not> truthy (field f) then Inr False
      else if \<not> hasattr_is_developer (field f) then Inr False
      else getattr_is_developer (field f))"

text \<open>\<open>[x for x in xs if c(x)]\<close>, where the condition may raise.\<close>

fun comprehension :: "('a \<Rightarrow> py_error + bool) \<Rightarrow> 'a list \<Rightarrow> py_error + 'a list" where
  "comprehension c [] = Inr []"
| "comprehension c (x # xs) =
     (case c x of
        Inl e \<Rightarrow> Inl e
      | Inr b \<Rightarrow>
          (case comprehension c xs of
             Inl e \<Rightarrow> Inl e
           | Inr ys \<Rightarrow> Inr (if b then x # ys else ys)))"

text \<open>\<open>f.name or ""\<close>: the name, or the empty string when it is \<open>None\<close> or empty.\<close>

definition or_empty :: "pystr option \<Rightarrow> pystr" where
  "or_empty s = (case s of None \<Rightarrow> [] | Some t \<Rightarrow> if t = [] then [] else t)"

text \<open>
  The condition of the second comprehension,
  \<open>"lactate" in (f.name or "").lower() or "Lactate" in (f.name or "")\<close>.
\<close>

definition is_lactate_field :: "unicode_lower \<Rightarrow> 'v field_data \<Rightarrow> bool" where
  "is_lactate_field u f =
     (str_in (lit ''lactate'') (lower u (or_empty (name f)))
      \<or> str_in (lit ''Lactate'') (or_empty (name f)))"

text \<open>The list \<open>dev_fields\<close> of a record, after both comprehensions.\<close>

definition dev_fields :: "unicode_lower \<Rightarrow> 'v message \<Rightarrow> py_error + 'v field_data list" where
  "dev_fields u r =
     (case comprehension is_developer_field (fields r) of
        Inl e \<Rightarrow> Inl e
      | Inr d \<Rightarrow> Inr (if d = [] then filter (is_lactate_field u) (fields r) else d))"

text \<open>The inner loop of the record section: one line per field, with the units.\<close>

fun print_record_fields :: "('v \<Rightarrow> pystr) \<Rightarrow> 'v field_data list \<Rightarrow> stdout \<Rightarrow> stdout" where
  "print_record_fields fmt [] out = out"
| "print_record_fields fmt (f # fs) out =
     print_record_fields fmt fs
       (print (lit ''  '' @ format_str (name f) @ lit '': '' @ format_value fmt (fvalue f)
               @ lit '' ('' @ format_str (units f) @ lit '')'') out)"

text \<open>The body of the record loop, for the record \<open>r\<close> at the index \<open>i\<close>.\<close>

definition record_body ::
  "unicode_lower \<Rightarrow> ('v \<Rightarrow> pystr) \<Rightarrow> nat \<Rightarrow> 'v message \<Rightarrow> stdout \<Rightarrow> py_error + stdout" where
  "record_body u fmt i r out =
     (case dev_fields u r of
        Inl e \<Rightarrow> Inl e
      | Inr d \<Rightarrow>
          if d \<noteq> [] then
            (let ts = get_value r (lit ''timestamp'');
                 out1 = print (lit ''Record #'' @ str_nat i @ lit '' timestamp=''
                               @ format_value fmt ts) out;
                 out2 = print_record_fields fmt (fields r) out1
             in Inr (print [] out2))
          else Inr out)"

text \<open>\<open>for i, record in enumerate(...)\<close>, from the index \<open>i\<close> on; an error ends the run.\<close>

fun record_loop ::
  "unicode_lower \<Rightarrow> ('v \<Rightarrow> pystr) \<Rightarrow> nat \<Rightarrow> 'v message list \<Rightarrow> stdout \<Rightarrow> py_error + stdout" where
  "record_loop u fmt i [] out = Inr out"
| "record_loop u fmt i (r # rs) out =
     (case record_body u fmt i r out of
        Inl e \<Rightarrow> Inl e
      | Inr out1 \<Rightarrow> record_loop u fmt (Suc i) rs out1)"

text \<open>The inner loop of the two other sections: one line per field, name and value.\<close>

fun print_fields :: "('v \<Rightarrow> pystr) \<Rightarrow> 'v field_data list \<Rightarrow> stdout \<Rightarrow> stdout" where
  "print_fields fmt [] out = out"
| "print_fields fmt (f # fs) out =
     print_fields fmt fs
       (print (lit ''  '' @ format_str (name f) @ lit '': '' @ format_value fmt (fvalue f)) out)"

fun field_description_loop :: "('v \<Rightarrow> pystr) \<Rightarrow> 'v message list \<Rightarrow> stdout \<Rightarrow> stdout" where
  "field_description_loop fmt [] out = out"
| "field_description_loop fmt (msg # msgs) out =
     field_description_loop fmt msgs
       (print [] (print_fields fmt (fields msg) (print (lit ''Field Description:'') out)))"

fun developer_data_id_loop :: "('v \<Rightarrow> pystr) \<Rightarrow> 'v message list \<Rightarrow> stdout \<Rightarrow> stdout" where
  "developer_data_id_loop fmt [] out = out"
| "developer_data_id_loop fmt (msg # msgs) out =
     developer_data_id_loop fmt msgs
       (print [] (print_fields fmt (fields msg) (print (lit ''Developer Data ID:'') out)))"

text \<open>
  The three sections, each from its banner on, and the whole script. The script starts
  from the opened file; what it has printed when an error ends it is not kept.
\<close>

definition record_section ::
  "unicode_lower \<Rightarrow> ('v \<Rightarrow> pystr) \<Rightarrow> 'v fitfile \<Rightarrow> stdout \<Rightarrow> py_error + stdout" where
  "record_section u fmt fitfile out =
     record_loop u fmt 0 (get_messages fitfile (lit ''record''))
       (print (lit ''=== ALL RECORD MESSAGES WITH DEVELOPER FIELDS ==='' @ [10]) out)"

definition field_description_section :: "('v \<Rightarrow> pystr) \<Rightarrow> 'v fitfile \<Rightarrow> stdout \<Rightarrow> stdout" where
  "field_description_section fmt fitfile out =
     field_description_loop fmt (get_messages fitfile (lit ''field_description''))
       (print ([10] @ lit ''=== ALL DEVELOPER FIELD DESCRIPTION MESSAGES ==='' @ [10]) out)"

definition developer_data_id_section :: "('v \<Rightarrow> pystr) \<Rightarrow> 'v fitfile \<Rightarrow> stdout \<Rightarrow> stdout" where
  "developer_data_id_section fmt fitfile out =
     developer_data_id_loop fmt (get_messages fitfile (lit ''developer_data_id''))
       (print ([10] @ lit ''=== ALL DEVELOPER DATA ID MESSAGES ==='' @ [10]) out)"

definition parse_fit :: "unicode_lower \<Rightarrow> ('v \<Rightarrow> pystr) \<Rightarrow> 'v fitfile \<Rightarrow> py_error + stdout" where
  "parse_fit u fmt fitfile =
     (case record_section u fmt fitfile [] of
        Inl e \<Rightarrow> Inl e
      | Inr out1 \<Rightarrow>
          Inr (developer_data_id_section fmt fitfile
                 (field_description_section fmt fitfile out1)))"

section \<open>Notions for the proofs\<close>

text \<open>
  What the proofs speak of: the number a string of digits denotes, the fields the first
  comprehension keeps, the records that get an entry, and the lines of an entry.
\<close>

definition digits_value :: "pystr \<Rightarrow> nat" where
  "digits_value s = foldl (\<lambda>a c. 10 * a + (c - 48)) 0 s"

definition developer_origin :: "'v field_data \<Rightarrow> bool" where
  "developer_origin f =
     (case field f of None \<Rightarrow> False | Some d \<Rightarrow> truth d \<and> is_developer d = Some True)"

definition reported :: "unicode_lower \<Rightarrow> 'v message \<Rightarrow> bool" where
  "reported u r = (filter developer_origin (fields r) \<noteq> [] \<or> filter (is_lactate_field u) (fields r) \<noteq> [])"

definition record_header :: "('v \<Rightarrow> pystr) \<Rightarrow> nat \<Rightarrow> 'v message \<Rightarrow> pystr" where
  "record_header fmt i r =
     lit ''Record #'' @ str_nat i @ lit '' timestamp='' @ format_value fmt (get_value r (lit ''timestamp''))"

definition record_line :: "('v \<Rightarrow> pystr) \<Rightarrow> 'v field_data \<Rightarrow> pystr" where
  "record_line fmt f =
     lit ''  '' @ format_str (name f) @ lit '': '' @ format_value fmt (fvalue f)
     @ lit '' ('' @ format_str (units f) @ lit '')''"

definition field_line :: "('v \<Rightarrow> pystr) \<Rightarrow> 'v field_data \<Rightarrow> pystr" where
  "field_line fmt f = lit ''  '' @ format_str (name f) @ lit '': '' @ format_value fmt (fvalue f)"

definition record_entry :: "unicode_lower \<Rightarrow> ('v \<Rightarrow> pystr) \<Rightarrow> nat \<Rightarrow> 'v message \<Rightarrow> stdout" where
  "record_entry u fmt i r =
     (if reported u r then record_header fmt i r # map (record_line fmt) (fields r) @ [[]] else [])"

fun record_entries :: "unicode_lower \<Rightarrow> ('v \<Rightarrow> pystr) \<Rightarrow> nat \<Rightarrow> 'v message list \<Rightarrow> stdout" where
  "record_entries u fmt i [] = []"
| "record_entries u fmt i (r # rs) = record_entry u fmt i r @ record_entries u fmt (Suc i) rs"

definition message_entry :: "pystr \<Rightarrow> ('v \<Rightarrow> pystr) \<Rightarrow> 'v message \<Rightarrow> stdout" where
  "message_entry header fmt m = header # map (field_line fmt) (fields m) @ [[]]"

text \<open>Everything the script prints after the record loop.\<close>

definition after_records :: "('v \<Rightarrow> pystr) \<Rightarrow> 'v fitfile \<Rightarrow> stdout" where
  "after_records fmt fitfile =
     ([10] @ lit ''=== ALL DEVELOPER FIELD DESCRIPTION MESSAGES ==='' @ [10])
     # concat (map (message_entry (lit ''Field Description:'') fmt)
                 (get_messages fitfile (lit ''field_description'')))
     @ ([10] @ lit ''=== ALL DEVELOPER DATA ID MESSAGES ==='' @ [10])
     # concat (map (message_entry (lit ''Developer Data ID:'') fmt)
                 (get_messages fitfile (lit ''developer_data_id'')))"

text \<open>
  The lines of a text: the runs of code points that a line break (code point 10) ends,
  and what is left after the last line break, if anything.
\<close>

fun lines_from :: "pystr \<Rightarrow> pystr \<Rightarrow> pystr list" where
  "lines_from acc [] = (if acc = [] then [] else [acc])"
| "lines_from acc (c # cs) =
     (if c = 10 then acc # lines_from [] cs else lines_from (acc @ [c]) cs)"

definition text_lines :: "pystr \<Rightarrow> pystr list" where
  "text_lines t = lines_from [] t"

text \<open>
  No name, no units and no text of a value of a field of these messages holds a line
  break.
\<close>

definition plain_texts :: "('v \<Rightarrow> pystr) \<Rightarrow> 'v message list \<Rightarrow> bool" where
  "plain_texts fmt ms =
     (\<forall>m \<in> set ms. \<forall>f \<in> set (fields m).
        (case name f of None \<Rightarrow> True | Some n \<Rightarrow> 10 \<notin> set n)
        \<and> (case fvalue f of None \<Rightarrow> True | Some v \<Rightarrow> 10 \<notin> set (fmt v))
        \<and> (case units f of None \<Rightarrow> True | Some t \<Rightarrow> 10 \<notin> set t))"

section \<open>Example inputs\<close>

text \<open>
  A lower-casing that leaves every code point outside ASCII as it is, and a small file
  whose values are natural numbers: four records (the second has a developer field
  with an unrelated name, the third only a field named \<open>Lactate Threshold\<close> and no
  timestamp, the fourth a field with no attribute set), two field descriptions and one
  developer data id. Every definition object in it is true, as the library's are.
\<close>

definition plain_lower :: unicode_lower where
  "plain_lower = (\<lambda>pre c suf. [c])"

definition timestamp_field :: "nat field_data" where
  "timestamp_field =
     \<lparr>field = Some \<lparr>truth = True, is_developer = None\<rparr>, name = Some (lit ''timestamp''),
      fvalue = Some 100, units = Some (lit ''s'')\<rparr>"

definition heart_rate_field :: "nat field_data" where
  "heart_rate_field =
     \<lparr>field = Some \<lparr>truth = True, is_developer = Some False\<rparr>, name = Some (lit ''heart_rate''),
      fvalue = Some 150, units = Some (lit ''bpm'')\<rparr>"

definition developer_field :: "nat field_data" where
  "developer_field =
     \<lparr>field = Some \<lparr>truth = True, is_developer = Some True\<rparr>, name = Some (lit ''xyz''),
      fvalue = Some 7, units = None\<rparr>"

definition threshold_field :: "nat field_data" where
  "threshold_field =
     \<lparr>field = None, name = Some (lit ''Lactate Threshold''), fvalue = Some 4,
      units = Some (lit ''mmol'')\<rparr>"

definition bare_field :: "nat field_data" where
  "bare_field = \<lparr>field = None, name = None, fvalue = None, units = None\<rparr>"

definition example_records :: "nat message list" where
  "example_records =
     [Message [timestamp_field, heart_rate_field],
      Message [timestamp_field, developer_field],
      Message [threshold_field],
      Message [bare_field]]"

definition example_file :: "nat fitfile" where
  "example_file =
     FitFile (\<lambda>n.
       if n = lit ''record'' then example_records
       else if n = lit ''field_description'' then [Message [heart_rate_field], Message []]
       else if n = lit ''developer_data_id'' then [Message [bare_field]]
       else [])"

text \<open>A file with no match.\<close>

definition plain_file :: "nat fitfile" where
  "plain_file =
     FitFile (\<lambda>n.
       if n = lit ''record'' then [Message [timestamp_field, heart_rate_field], Message [bare_field]]
       else [])"

text \<open>
  Two fields whose definition object is false although it carries the indicator with
  the value true: one with an unrelated name, one named \<open>lactate level\<close>.
\<close>

definition false_developer_field :: "nat field_data" where
  "false_developer_field =
     \<lparr>field = Some \<lparr>truth = False, is_developer = Some True\<rparr>, name = Some (lit ''xyz''),
      fvalue = Some 7, units = None\<rparr>"

definition false_lactate_field :: "nat field_data" where
  "false_lactate_field =
     \<lparr>field = Some \<lparr>truth = False, is_developer = Some True\<rparr>,
      name = Some (lit ''lactate level''), fvalue = Some 3, units = None\<rparr>"

text \<open>
  Two files whose values are strings, printed as they are. In the first, the value of
  the one field of the one field description holds a line break followed by the text of
  the header. In the second, the name of the one field of the one record holds the word
  \<open>lactate\<close>, a line break and the text of the header of that record.
\<close>

definition broken_description_file :: "pystr fitfile" where
  "broken_description_file =
     FitFile (\<lambda>n.
       if n = lit ''field_description''
       then [Message [\<lparr>field = None, name = Some (lit ''field_name''),
                       fvalue = Some (lit ''x'' @ [10] @ lit ''Field Description:''),
                       units = None\<rparr>]]
       else [])"

definition broken_record_file :: "pystr fitfile" where
  "broken_record_file =
     FitFile (\<lambda>n.
       if n = lit ''record''
       then [Message [\<lparr>field = None,
                       name = Some (lit ''lactate'' @ [10] @ lit ''Record #0 timestamp=None''
                                    @ [10] @ lit ''z''),
                       fvalue = Some (lit ''v''), units = Some (lit ''u'')\<rparr>]]
       else [])"

section \<open>Strings: containment, lower-casing, decimal numbers\<close>

lemma startswith_iff: "startswith s p \<longleftrightarrow> (\<exists>t. s = p @ t)"
  by (induction s p rule: startswith.induct) auto

lemma str_in_iff: "str_in sub s \<longleftrightarrow> (\<exists>a b. s = a @ sub @ b)"
proof (induction s)
  case Nil
  then show ?case by auto
next
  case (Cons c cs)
  show ?case
  proof
    assume "str_in sub (c # cs)"
    then consider "startswith (c # cs) sub" | "str_in sub cs" by auto
    then show "\<exists>a b. c # cs = a @ sub @ b"
    proof cases
      case 1
      then obtain t where "c # cs = sub @ t" by (auto simp: startswith_iff)
      then have "c # cs = [] @ sub @ t" by simp
      then show ?thesis by blast
    next
      case 2
      then obtain a b where "cs = a @ sub @ b" using Cons.IH by blast
      then have "c # cs = (c # a) @ sub @ b" by simp
      then show ?thesis by blast
    qed
  next
    assume "\<exists>a b. c # cs = a @ sub @ b"
    then obtain a b where ab: "c # cs = a @ sub @ b" by blast
    show "str_in sub (c # cs)"
    proof (cases a)
      case Nil
      with ab have "startswith (c # cs) sub" by (auto simp: startswith_iff)
      then show ?thesis by simp
    next
      case (Cons x a')
      with ab have "cs = a' @ sub @ b" by simp
      then have "str_in sub cs" using Cons.IH by blast
      then show ?thesis by simp
    qed
  qed
qed

lemma lower_from_append: "\<exists>front. lower_from u pre (a @ b) = front @ lower_from u (pre @ a) b"
proof (induction a arbitrary: pre)
  case Nil
  show ?case by simp
next
  case (Cons c a)
  obtain front where "lower_from u (pre @ [c]) (a @ b) = front @ lower_from u ((pre @ [c]) @ a) b"
    using Cons.IH by blast
  then have "lower_from u pre ((c # a) @ b) = (lower_codepoint u pre c (a @ b) @ front) @ lower_from u (pre @ c # a) b"
    by simp
  then show ?case by blast
qed

lemma lower_from_Lactate:
  "lower_from u pre (lit ''Lactate'' @ b) = lit ''lactate'' @ lower_from u (pre @ lit ''Lactate'') b"
  by (simp add: lit_def lower_codepoint_def)

lemma Lactate_in_lower:
  assumes "str_in (lit ''Lactate'') s"
  shows "str_in (lit ''lactate'') (lower u s)"
proof -
  obtain a b where s: "s = a @ lit ''Lactate'' @ b" using assms by (auto simp: str_in_iff)
  obtain front where "lower_from u [] (a @ lit ''Lactate'' @ b) = front @ lower_from u ([] @ a) (lit ''Lactate'' @ b)"
    using lower_from_append by blast
  then have "lower u s = front @ lit ''lactate'' @ lower_from u (a @ lit ''Lactate'') b"
    by (simp add: lower_def s lower_from_Lactate)
  then show ?thesis unfolding str_in_iff by blast
qed

lemma str_nat_digits: "c \<in> set (str_nat n) \<Longrightarrow> 48 \<le> c \<and> c \<le> 57"
proof (induction n rule: str_nat.induct)
  case (1 n)
  show ?case
  proof (cases "n < 10")
    case True
    with "1.prems" show ?thesis by (simp add: str_nat.simps [of n])
  next
    case False
    with "1.prems" have "c \<in> set (str_nat (n div 10)) \<or> c = 48 + n mod 10"
      by (auto simp: str_nat.simps [of n])
    then show ?thesis using "1.IH" False by auto
  qed
qed

lemma digits_value_snoc: "digits_value (s @ [c]) = 10 * digits_value s + (c - 48)"
  by (simp add: digits_value_def)

lemma digits_value_str_nat: "digits_value (str_nat n) = n"
proof (induction n rule: str_nat.induct)
  case (1 n)
  show ?case
  proof (cases "n < 10")
    case True
    then show ?thesis by (simp add: str_nat.simps [of n] digits_value_def)
  next
    case False
    then have "digits_value (str_nat n) = 10 * digits_value (str_nat (n div 10)) + n mod 10"
      by (simp add: str_nat.simps [of n] digits_value_snoc)
    then show ?thesis using "1.IH" False by simp
  qed
qed

lemma str_nat_inj: "str_nat i = str_nat j \<Longrightarrow> i = j"
  by (metis digits_value_str_nat)

lemma first_separator:
  "x \<notin> set xs \<Longrightarrow> x \<notin> set ys \<Longrightarrow> xs @ x # a = ys @ x # b \<Longrightarrow> xs = ys"
proof (induction xs arbitrary: ys)
  case Nil
  then show ?case by (cases ys) auto
next
  case (Cons c cs)
  then show ?case by (cases ys) auto
qed

lemma record_header_inj:
  assumes "record_header fmt i r = record_header fmt j r'"
  shows "i = j"
proof -
  have ni: "32 \<notin> set (str_nat i)" and nj: "32 \<notin> set (str_nat j)"
    using str_nat_digits by fastforce+
  from assms have eq: "str_nat i @ 32 # (lit ''timestamp='' @ format_value fmt (get_value r (lit ''timestamp'')))
      = str_nat j @ 32 # (lit ''timestamp='' @ format_value fmt (get_value r' (lit ''timestamp'')))"
    by (simp add: record_header_def lit_def)
  have "str_nat i = str_nat j"
    using ni nj eq by (rule first_separator)
  then show ?thesis by (rule str_nat_inj)
qed

section \<open>What the loops print\<close>

text \<open>
  No read of the script raises, and every loop only appends to what was printed before
  it.
\<close>

lemma is_developer_field_eq: "is_developer_field f = Inr (developer_origin f)"
  by (simp add: is_developer_field_def developer_origin_def truthy_def hasattr_is_developer_def
      getattr_is_developer_def split: option.splits)

lemma comprehension_total:
  "(\<And>x. c x = Inr (p x)) \<Longrightarrow> comprehension c xs = Inr (filter p xs)"
  by (induction xs) simp_all

lemma developer_comprehension:
  "comprehension is_developer_field fs = Inr (filter developer_origin fs)"
  by (rule comprehension_total) (rule is_developer_field_eq)

lemma dev_fields_eq:
  "dev_fields u r =
     Inr (if filter developer_origin (fields r) = [] then filter (is_lactate_field u) (fields r)
          else filter developer_origin (fields r))"
  by (simp add: dev_fields_def developer_comprehension)


lemma print_record_fields_eq:
  "print_record_fields fmt fs out = out @ map (record_line fmt) fs"
  by (induction fs arbitrary: out) (simp_all add: print_def record_line_def)

lemma record_body_eq: "record_body u fmt i r out = Inr (out @ record_entry u fmt i r)"
proof (cases "reported u r")
  case True
  then show ?thesis
    by (auto simp: record_body_def dev_fields_eq reported_def record_entry_def
        print_record_fields_eq print_def record_header_def Let_def)
next
  case False
  then show ?thesis
    by (auto simp: record_body_def dev_fields_eq reported_def record_entry_def)
qed

lemma record_loop_eq: "record_loop u fmt i rs out = Inr (out @ record_entries u fmt i rs)"
  by (induction rs arbitrary: i out) (simp_all add: record_body_eq)

lemma print_fields_eq: "print_fields fmt fs out = out @ map (field_line fmt) fs"
  by (induction fs arbitrary: out) (simp_all add: print_def field_line_def)

lemma field_description_loop_eq:
  "field_description_loop fmt ms out =
     out @ concat (map (message_entry (lit ''Field Description:'') fmt) ms)"
  by (induction ms arbitrary: out) (simp_all add: print_fields_eq print_def message_entry_def)

lemma developer_data_id_loop_eq:
  "developer_data_id_loop fmt ms out =
     out @ concat (map (message_entry (lit ''Developer Data ID:'') fmt) ms)"
  by (induction ms arbitrary: out) (simp_all add: print_fields_eq print_def message_entry_def)

lemma record_section_eq:
  "record_section u fmt fitfile out =
     Inr (out @ (lit ''=== ALL RECORD MESSAGES WITH DEVELOPER FIELDS ==='' @ [10])
            # record_entries u fmt 0 (get_messages fitfile (lit ''record'')))"
  by (simp add: record_section_def record_loop_eq print_def)

lemma parse_fit_eq:
  "parse_fit u fmt fitfile =
     Inr ((lit ''=== ALL RECORD MESSAGES WITH DEVELOPER FIELDS ==='' @ [10])
          # record_entries u fmt 0 (get_messages fitfile (lit ''record''))
          @ ([10] @ lit ''=== ALL DEVELOPER FIELD DESCRIPTION MESSAGES ==='' @ [10])
          # concat (map (message_entry (lit ''Field Description:'') fmt)
                      (get_messages fitfile (lit ''field_description'')))
          @ ([10] @ lit ''=== ALL DEVELOPER DATA ID MESSAGES ==='' @ [10])
          # concat (map (message_entry (lit ''Developer Data ID:'') fmt)
                      (get_messages fitfile (lit ''developer_data_id''))))"
  by (simp add: parse_fit_def record_section_eq field_description_section_def
      developer_data_id_section_def field_description_loop_eq developer_data_id_loop_eq print_def)

lemma record_entries_append:
  "record_entries u fmt k (xs @ ys) =
     record_entries u fmt k xs @ record_entries u fmt (k + length xs) ys"
  by (induction xs arbitrary: k) simp_all

lemma record_entries_split:
  assumes "i < length rs"
  shows "record_entries u fmt k rs =
     record_entries u fmt k (take i rs) @ record_entry u fmt (k + i) (rs ! i)
       @ record_entries u fmt (Suc (k + i)) (drop (Suc i) rs)"
proof -
  have "rs = take i rs @ (rs ! i # drop (Suc i) rs)"
    using assms by (simp add: id_take_nth_drop)
  then have "record_entries u fmt k rs =
      record_entries u fmt k (take i rs @ (rs ! i # drop (Suc i) rs))" by simp
  also have "\<dots> = record_entries u fmt k (take i rs)
       @ record_entries u fmt (k + length (take i rs)) (rs ! i # drop (Suc i) rs)"
    by (rule record_entries_append)
  also have "length (take i rs) = i" using assms by simp
  finally show ?thesis by simp
qed

text \<open>
  The run on the example file, as the script prints it: the first and the fourth record
  have no entry, the second is found by its developer field, the third by its name, and
  an absent name, value or units is printed as \<open>None\<close>.
\<close>

lemma example_run:
  "parse_fit plain_lower str_nat example_file =
     Inr [lit ''=== ALL RECORD MESSAGES WITH DEVELOPER FIELDS ==='' @ [10],
          lit ''Record #1 timestamp=100'',
          lit ''  timestamp: 100 (s)'',
          lit ''  xyz: 7 (None)'',
          [],
          lit ''Record #2 timestamp=None'',
          lit ''  Lactate Threshold: 4 (mmol)'',
          [],
          [10] @ lit ''=== ALL DEVELOPER FIELD DESCRIPTION MESSAGES ==='' @ [10],
          lit ''Field Description:'',
          lit ''  heart_rate: 150'',
          [],
          lit ''Field Description:'',
          [],
          [10] @ lit ''=== ALL DEVELOPER DATA ID MESSAGES ==='' @ [10],
          lit ''Developer Data ID:'',
          lit ''  None: None'',
          []]"
  by code_simp

section \<open>Which lines are headers\<close>

text \<open>
  A header of a record starts with \<open>R\<close> and names its index, a line of a field starts
  with a blank, and the line that closes an entry is empty: no line of one kind is a
  line of another, and the headers of two records differ.
\<close>

lemma record_header_hd: "\<exists>t. record_header fmt i r = 82 # t"
  by (simp add: record_header_def lit_def)

lemma record_line_hd: "\<exists>t. record_line fmt f = 32 # t"
  by (simp add: record_line_def lit_def)

lemma field_line_hd: "\<exists>t. field_line fmt f = 32 # t"
  by (simp add: field_line_def lit_def)

lemma set_record_entry:
  assumes "e \<in> set (record_entry u fmt i r)"
  shows "e = record_header fmt i r \<or> e = [] \<or> (\<exists>t. e = 32 # t)"
proof -
  from assms consider "e = record_header fmt i r" | "e \<in> record_line fmt ` set (fields r)" | "e = []"
    by (auto simp: record_entry_def split: if_splits)
  then show ?thesis
  proof cases
    case 2
    then show ?thesis using record_line_hd by blast
  qed simp_all
qed

lemma set_record_entries:
  "e \<in> set (record_entries u fmt k rs) \<Longrightarrow>
     (\<exists>j. k \<le> j \<and> j < k + length rs \<and> e = record_header fmt j (rs ! (j - k)))
     \<or> e = [] \<or> (\<exists>t. e = 32 # t)"
proof (induction rs arbitrary: k)
  case Nil
  then show ?case by simp
next
  case (Cons r rs)
  from Cons.prems consider "e \<in> set (record_entry u fmt k r)"
    | "e \<in> set (record_entries u fmt (Suc k) rs)" by auto
  then show ?case
  proof cases
    case 1
    then have "e = record_header fmt k r \<or> e = [] \<or> (\<exists>t. e = 32 # t)"
      by (rule set_record_entry)
    moreover have "e = record_header fmt k r \<Longrightarrow>
      \<exists>j. k \<le> j \<and> j < k + length (r # rs) \<and> e = record_header fmt j ((r # rs) ! (j - k))"
      by (rule exI [of _ k]) simp
    ultimately show ?thesis by blast
  next
    case 2
    then have "(\<exists>j. Suc k \<le> j \<and> j < Suc k + length rs \<and> e = record_header fmt j (rs ! (j - Suc k)))
       \<or> e = [] \<or> (\<exists>t. e = 32 # t)" by (rule Cons.IH)
    moreover have "\<exists>j. k \<le> j \<and> j < k + length (r # rs) \<and> e = record_header fmt j ((r # rs) ! (j - k))"
      if "Suc k \<le> j" "j < Suc k + length rs" "e = record_header fmt j (rs ! (j - Suc k))" for j
    proof -
      from that(1) have "j - k = Suc (j - Suc k)" by simp
      then have "(r # rs) ! (j - k) = rs ! (j - Suc k)" by simp
      with that show ?thesis by (intro exI [of _ j]) simp
    qed
    ultimately show ?thesis by blast
  qed
qed

lemma header_not_in_entries:
  assumes "i < k \<or> k + length rs \<le> i"
  shows "record_header fmt i r \<notin> set (record_entries u fmt k rs)"
proof
  assume "record_header fmt i r \<in> set (record_entries u fmt k rs)"
  then have "(\<exists>j. k \<le> j \<and> j < k + length rs
        \<and> record_header fmt i r = record_header fmt j (rs ! (j - k)))
     \<or> record_header fmt i r = [] \<or> (\<exists>t. record_header fmt i r = 32 # t)"
    by (rule set_record_entries)
  moreover obtain t where "record_header fmt i r = 82 # t" using record_header_hd by blast
  ultimately obtain j where "k \<le> j" "j < k + length rs"
      "record_header fmt i r = record_header fmt j (rs ! (j - k))" by auto
  then have "i = j" using record_header_inj by blast
  with \<open>k \<le> j\<close> \<open>j < k + length rs\<close> assms show False by simp
qed

lemma count_record_entry:
  assumes "reported u r"
  shows "count_list (record_entry u fmt i r) (record_header fmt i r) = 1"
proof -
  obtain t where t: "record_header fmt i r = 82 # t" using record_header_hd by blast
  have "record_header fmt i r \<noteq> record_line fmt f" for f
    by (simp add: record_header_def record_line_def lit_def)
  then have "record_header fmt i r \<notin> set (map (record_line fmt) (fields r))"
    by auto
  then have "count_list (map (record_line fmt) (fields r)) (record_header fmt i r) = 0"
    by simp
  then show ?thesis using assms t by (simp add: record_entry_def)
qed

lemma set_message_entries:
  assumes "e \<in> set (concat (map (message_entry h fmt) ms))"
  shows "e = h \<or> e = [] \<or> (\<exists>t. e = 32 # t)"
proof -
  from assms obtain m where "e \<in> set (message_entry h fmt m)" by auto
  then consider "e = h" | "e = []" | "e \<in> field_line fmt ` set (fields m)"
    by (auto simp: message_entry_def)
  then show ?thesis
  proof cases
    case 3
    then show ?thesis using field_line_hd by blast
  qed simp_all
qed

lemma count_message_entries:
  assumes "\<And>t. h \<noteq> 32 # t" "h \<noteq> []"
  shows "count_list (concat (map (message_entry h fmt) ms)) h = length ms"
proof (induction ms)
  case Nil
  show ?case by simp
next
  case (Cons m ms)
  have "h \<noteq> field_line fmt f" for f
    using field_line_hd [of fmt f] assms(1) by auto
  then have "h \<notin> set (map (field_line fmt) (fields m))"
    by auto
  then have "count_list (map (field_line fmt) (fields m)) h = 0" by simp
  then have "count_list (message_entry h fmt m) h = 1"
    using assms(2) by (simp add: message_entry_def)
  then show ?case using Cons.IH by simp
qed

section \<open>The entry of a record in the output\<close>

lemma set_after_records:
  assumes "e \<in> set (after_records fmt fitfile)"
  shows "e = lit ''Field Description:'' \<or> e = lit ''Developer Data ID:'' \<or> e = []
     \<or> (\<exists>t. e = 32 # t) \<or> (\<exists>t. e = 10 # t)"
proof -
  from assms consider
      "e = [10] @ lit ''=== ALL DEVELOPER FIELD DESCRIPTION MESSAGES ==='' @ [10]"
    | "e \<in> set (concat (map (message_entry (lit ''Field Description:'') fmt)
                 (get_messages fitfile (lit ''field_description''))))"
    | "e = [10] @ lit ''=== ALL DEVELOPER DATA ID MESSAGES ==='' @ [10]"
    | "e \<in> set (concat (map (message_entry (lit ''Developer Data ID:'') fmt)
                 (get_messages fitfile (lit ''developer_data_id''))))"
    unfolding after_records_def by auto
  then show ?thesis
  proof cases
    case 2
    then show ?thesis using set_message_entries by blast
  next
    case 4
    then show ?thesis using set_message_entries by blast
  qed simp_all
qed

lemma header_not_after_records:
  "record_header fmt i r \<notin> set (after_records fmt fitfile)"
proof
  assume "record_header fmt i r \<in> set (after_records fmt fitfile)"
  then have "record_header fmt i r = lit ''Field Description:''
     \<or> record_header fmt i r = lit ''Developer Data ID:'' \<or> record_header fmt i r = []
     \<or> (\<exists>t. record_header fmt i r = 32 # t) \<or> (\<exists>t. record_header fmt i r = 10 # t)"
    by (rule set_after_records)
  then show False by (simp add: record_header_def lit_def)
qed

lemma parse_fit_after_records:
  "parse_fit u fmt fitfile =
     Inr ((lit ''=== ALL RECORD MESSAGES WITH DEVELOPER FIELDS ==='' @ [10])
          # record_entries u fmt 0 (get_messages fitfile (lit ''record''))
          @ after_records fmt fitfile)"
  by (simp add: parse_fit_eq after_records_def)

lemma parse_fit_at:
  assumes "i < length (get_messages fitfile (lit ''record''))"
  shows "parse_fit u fmt fitfile =
     Inr (((lit ''=== ALL RECORD MESSAGES WITH DEVELOPER FIELDS ==='' @ [10])
           # record_entries u fmt 0 (take i (get_messages fitfile (lit ''record''))))
          @ record_entry u fmt i (get_messages fitfile (lit ''record'') ! i)
          @ (record_entries u fmt (Suc i) (drop (Suc i) (get_messages fitfile (lit ''record'')))
             @ after_records fmt fitfile))"
  using record_entries_split [OF assms, of u fmt 0]
  by (simp add: parse_fit_after_records)

text \<open>The entry of a reported record, placed in the output and counted.\<close>

lemma reported_entry:
  assumes "i < length (get_messages fitfile (lit ''record''))"
    and "reported u (get_messages fitfile (lit ''record'') ! i)"
  shows "\<exists>out pre suf. parse_fit u fmt fitfile = Inr out
     \<and> out = pre @ [record_header fmt i (get_messages fitfile (lit ''record'') ! i)]
          @ map (record_line fmt) (fields (get_messages fitfile (lit ''record'') ! i)) @ [[]] @ suf
     \<and> count_list out (record_header fmt i (get_messages fitfile (lit ''record'') ! i)) = 1"
proof -
  let ?rs = "get_messages fitfile (lit ''record'')"
  let ?r = "?rs ! i"
  let ?pre = "(lit ''=== ALL RECORD MESSAGES WITH DEVELOPER FIELDS ==='' @ [10])
           # record_entries u fmt 0 (take i ?rs)"
  let ?suf = "record_entries u fmt (Suc i) (drop (Suc i) ?rs) @ after_records fmt fitfile"
  let ?out = "?pre @ record_entry u fmt i ?r @ ?suf"
  have out: "parse_fit u fmt fitfile = Inr ?out" using assms(1) by (rule parse_fit_at)
  have entry: "record_entry u fmt i ?r = [record_header fmt i ?r] @ map (record_line fmt) (fields ?r) @ [[]]"
    using assms(2) by (simp add: record_entry_def)
  have "record_header fmt i ?r \<notin> set (record_entries u fmt 0 (take i ?rs))"
    using assms(1) by (intro header_not_in_entries) simp
  moreover have "record_header fmt i ?r
      \<noteq> lit ''=== ALL RECORD MESSAGES WITH DEVELOPER FIELDS ==='' @ [10]"
    by (simp add: record_header_def lit_def)
  ultimately have a: "count_list ?pre (record_header fmt i ?r) = 0"
    by simp
  have b: "count_list (record_entry u fmt i ?r) (record_header fmt i ?r) = 1"
    using assms(2) by (rule count_record_entry)
  have "record_header fmt i ?r \<notin> set (record_entries u fmt (Suc i) (drop (Suc i) ?rs))"
    by (intro header_not_in_entries) simp
  then have c: "count_list (record_entries u fmt (Suc i) (drop (Suc i) ?rs))
      (record_header fmt i ?r) = 0"
    by simp
  have d: "count_list (after_records fmt fitfile) (record_header fmt i ?r) = 0"
    using header_not_after_records by (rule count_notin)
  have "count_list ?out (record_header fmt i ?r) = 1"
    unfolding count_list_append a b c d by simp
  moreover have "?out = ?pre @ [record_header fmt i ?r] @ map (record_line fmt) (fields ?r) @ [[]] @ ?suf"
    using entry by simp
  ultimately show ?thesis using out by blast
qed


lemma lactate_reported:
  "f \<in> set (fields r) \<Longrightarrow> is_lactate_field u f \<Longrightarrow> reported u r"
  by (auto simp: reported_def filter_empty_conv)


lemma or_empty_Some: "or_empty (Some n) = n"
  by (simp add: or_empty_def)

lemma or_empty_case: "or_empty s = (case s of None \<Rightarrow> [] | Some n \<Rightarrow> n)"
  by (simp add: or_empty_def split: option.splits)

lemma is_lactate_field_iff:
  "is_lactate_field u f = str_in (lit ''lactate'') (lower u (or_empty (name f)))"
  using Lactate_in_lower [of "or_empty (name f)" u] by (auto simp: is_lactate_field_def)

lemma is_lactate_field_fun:
  "is_lactate_field u = (\<lambda>f. str_in (lit ''lactate'') (lower u (or_empty (name f))))"
  by (rule ext) (rule is_lactate_field_iff)

lemma developer_origin_iff:
  "developer_origin f = (\<exists>d. field f = Some d \<and> truth d \<and> is_developer d = Some True)"
  by (simp add: developer_origin_def split: option.splits)



lemma record_entries_none:
  "(\<And>r. r \<in> set rs \<Longrightarrow> \<not> reported u r) \<Longrightarrow> record_entries u fmt k rs = []"
  by (induction rs arbitrary: k) (simp_all add: record_entry_def)

lemma field_line_fun:
  "field_line fmt = (\<lambda>f. lit ''  '' @ format_str (name f) @ lit '': '' @ format_value fmt (fvalue f))"
  by (rule ext) (simp add: field_line_def)

lemma message_entry_fun:
  "message_entry h fmt = (\<lambda>m. h # map (\<lambda>f. lit ''  '' @ format_str (name f) @ lit '': ''
       @ format_value fmt (fvalue f)) (fields m) @ [[]])"
  by (rule ext) (simp add: message_entry_def field_line_fun)

lemma description_header_not_in_records:
  "lit ''Field Description:'' \<notin> set (record_entries u fmt k rs)"
proof
  assume "lit ''Field Description:'' \<in> set (record_entries u fmt k rs)"
  then have "(\<exists>j. k \<le> j \<and> j < k + length rs
        \<and> lit ''Field Description:'' = record_header fmt j (rs ! (j - k)))
     \<or> lit ''Field Description:'' = [] \<or> (\<exists>t. lit ''Field Description:'' = 32 # t)"
    by (rule set_record_entries)
  then show False by (simp add: record_header_def lit_def)
qed

lemma description_header_not_in_ids:
  "lit ''Field Description:''
     \<notin> set (concat (map (message_entry (lit ''Developer Data ID:'') fmt) ms))"
proof
  assume "lit ''Field Description:''
     \<in> set (concat (map (message_entry (lit ''Developer Data ID:'') fmt) ms))"
  then have "lit ''Field Description:'' = lit ''Developer Data ID:''
     \<or> lit ''Field Description:'' = [] \<or> (\<exists>t. lit ''Field Description:'' = 32 # t)"
    by (rule set_message_entries)
  then show False by (simp add: lit_def)
qed

section \<open>The lines of the output text\<close>

text \<open>
  The text written to standard output is the concatenation of the texts handed to
  \<open>print\<close>, each followed by a line break. When no name, no units and no text of a value
  of a field holds a line break, the lines of that text are the printed texts
  themselves, with each banner giving its own line and the empty lines around it.
\<close>

lemma plain_texts_format:
  assumes "plain_texts fmt ms" "m \<in> set ms" "f \<in> set (fields m)"
  shows "10 \<notin> set (format_str (name f)) \<and> 10 \<notin> set (format_value fmt (fvalue f))
     \<and> 10 \<notin> set (format_str (units f))"
proof -
  from assms have "(case name f of None \<Rightarrow> True | Some n \<Rightarrow> 10 \<notin> set n)
      \<and> (case fvalue f of None \<Rightarrow> True | Some v \<Rightarrow> 10 \<notin> set (fmt v))
      \<and> (case units f of None \<Rightarrow> True | Some t \<Rightarrow> 10 \<notin> set t)"
    unfolding plain_texts_def by blast
  then show ?thesis
    by (cases "name f"; cases "fvalue f"; cases "units f")
       (simp_all add: format_str_def format_value_def lit_def)
qed

lemma lines_from_break:
  "lines_from acc (s @ 10 # rest) = lines_from acc (s @ [10]) @ lines_from [] rest"
  by (induction s arbitrary: acc) simp_all

lemma lines_from_plain: "10 \<notin> set s \<Longrightarrow> lines_from acc (s @ [10]) = [acc @ s]"
  by (induction s arbitrary: acc) simp_all

lemma text_lines_stdout:
  "text_lines (stdout_text out) = concat (map (\<lambda>e. text_lines (e @ [10])) out)"
proof (induction out)
  case Nil
  show ?case by (simp add: text_lines_def stdout_text_def)
next
  case (Cons e out)
  have "stdout_text (e # out) = e @ 10 # stdout_text out"
    by (simp add: stdout_text_def)
  moreover have "lines_from [] (e @ 10 # stdout_text out)
      = lines_from [] (e @ [10]) @ lines_from [] (stdout_text out)"
    by (rule lines_from_break)
  ultimately have "text_lines (stdout_text (e # out))
      = text_lines (e @ [10]) @ text_lines (stdout_text out)"
    by (simp add: text_lines_def)
  then show ?case using Cons.IH by simp
qed

lemma text_lines_plain:
  "(\<And>e. e \<in> set out \<Longrightarrow> 10 \<notin> set e) \<Longrightarrow> concat (map (\<lambda>e. text_lines (e @ [10])) out) = out"
  by (induction out) (simp_all add: text_lines_def lines_from_plain)

lemma get_value_plain:
  assumes "\<forall>f \<in> set (fields r). 10 \<notin> set (format_value fmt (fvalue f))"
  shows "10 \<notin> set (format_value fmt (get_value r n))"
proof (cases "find (\<lambda>f. name f = Some n) (fields r)")
  case None
  then show ?thesis by (simp add: get_value_def format_value_def lit_def)
next
  case (Some f)
  then have "f \<in> set (fields r)" by (auto simp: find_Some_iff)
  with assms Some show ?thesis by (simp add: get_value_def)
qed

lemma record_entries_plain:
  assumes "plain_texts fmt rs" "e \<in> set (record_entries u fmt k rs)"
  shows "10 \<notin> set e"
  using assms
proof (induction rs arbitrary: k)
  case Nil
  then show ?case by simp
next
  case (Cons r rs)
  have r: "\<forall>f \<in> set (fields r).
        10 \<notin> set (format_str (name f)) \<and> 10 \<notin> set (format_value fmt (fvalue f))
        \<and> 10 \<notin> set (format_str (units f))"
    and rs: "plain_texts fmt rs"
    using plain_texts_format [OF Cons.prems(1), of r] Cons.prems(1)
    by (simp_all add: plain_texts_def)
  from Cons.prems(2) consider "e \<in> set (record_entry u fmt k r)"
    | "e \<in> set (record_entries u fmt (Suc k) rs)" by auto
  then show ?case
  proof cases
    case 1
    then consider "e = record_header fmt k r" | "e \<in> record_line fmt ` set (fields r)" | "e = []"
      by (auto simp: record_entry_def split: if_splits)
    then show ?thesis
    proof cases
      case 1
      have "10 \<notin> set (format_value fmt (get_value r (lit ''timestamp'')))"
        using r by (intro get_value_plain) simp
      moreover have "10 \<notin> set (str_nat k)" using str_nat_digits by fastforce
      ultimately show ?thesis using 1 by (simp add: record_header_def lit_def)
    next
      case 2
      then show ?thesis using r by (auto simp: record_line_def lit_def)
    next
      case 3
      then show ?thesis by simp
    qed
  next
    case 2
    with rs show ?thesis by (rule Cons.IH)
  qed
qed

lemma message_entries_plain:
  assumes "plain_texts fmt ms" "10 \<notin> set h" "e \<in> set (concat (map (message_entry h fmt) ms))"
  shows "10 \<notin> set e"
proof -
  from assms(3) obtain m where m: "m \<in> set ms" "e \<in> set (message_entry h fmt m)" by auto
  then consider "e = h" | "e = []" | "e \<in> field_line fmt ` set (fields m)"
    by (auto simp: message_entry_def)
  then show ?thesis
  proof cases
    case 3
    then show ?thesis
      using plain_texts_format [OF assms(1) m(1)] by (auto simp: field_line_def lit_def)
  qed (simp_all add: assms(2))
qed

lemma banner_lines:
  assumes "10 \<notin> set b"
  shows "text_lines ((b @ [10]) @ [10]) = [b, []]"
    and "text_lines (([10] @ b @ [10]) @ [10]) = [[], b, []]"
proof -
  have "lines_from [] (b @ 10 # [10]) = lines_from [] (b @ [10]) @ lines_from [] [10]"
    by (rule lines_from_break)
  then have l: "lines_from [] (b @ [10, 10]) = [b, []]"
    using assms by (simp add: lines_from_plain)
  then show "text_lines ((b @ [10]) @ [10]) = [b, []]"
    by (simp add: text_lines_def)
  show "text_lines (([10] @ b @ [10]) @ [10]) = [[], b, []]"
    using l by (simp add: text_lines_def)
qed

lemma concat_map_sections:
  "concat (map g (b1 # E @ b2 # F @ b3 # G))
     = g b1 @ concat (map g E) @ g b2 @ concat (map g F) @ g b3 @ concat (map g G)"
  by simp

lemma output_text_lines:
  assumes "plain_texts fmt (get_messages fitfile (lit ''record''))"
    and "plain_texts fmt (get_messages fitfile (lit ''field_description''))"
    and "plain_texts fmt (get_messages fitfile (lit ''developer_data_id''))"
  shows "\<exists>out. parse_fit u fmt fitfile = Inr out
     \<and> text_lines (stdout_text out) =
         [lit ''=== ALL RECORD MESSAGES WITH DEVELOPER FIELDS ==='', []]
         @ record_entries u fmt 0 (get_messages fitfile (lit ''record''))
         @ [[], lit ''=== ALL DEVELOPER FIELD DESCRIPTION MESSAGES ==='', []]
         @ concat (map (message_entry (lit ''Field Description:'') fmt)
                     (get_messages fitfile (lit ''field_description'')))
         @ [[], lit ''=== ALL DEVELOPER DATA ID MESSAGES ==='', []]
         @ concat (map (message_entry (lit ''Developer Data ID:'') fmt)
                     (get_messages fitfile (lit ''developer_data_id'')))"
proof -
  let ?E = "record_entries u fmt 0 (get_messages fitfile (lit ''record''))"
  let ?F = "concat (map (message_entry (lit ''Field Description:'') fmt)
                     (get_messages fitfile (lit ''field_description'')))"
  let ?G = "concat (map (message_entry (lit ''Developer Data ID:'') fmt)
                     (get_messages fitfile (lit ''developer_data_id'')))"
  have E: "concat (map (\<lambda>e. text_lines (e @ [10])) ?E) = ?E"
  proof (rule text_lines_plain)
    fix e assume "e \<in> set ?E"
    with assms(1) show "10 \<notin> set e" by (rule record_entries_plain)
  qed
  have F: "concat (map (\<lambda>e. text_lines (e @ [10])) ?F) = ?F"
  proof (rule text_lines_plain)
    fix e assume e: "e \<in> set ?F"
    have "10 \<notin> set (lit ''Field Description:'')" by (simp add: lit_def)
    with assms(2) show "10 \<notin> set e" using e by (rule message_entries_plain)
  qed
  have G: "concat (map (\<lambda>e. text_lines (e @ [10])) ?G) = ?G"
  proof (rule text_lines_plain)
    fix e assume e: "e \<in> set ?G"
    have "10 \<notin> set (lit ''Developer Data ID:'')" by (simp add: lit_def)
    with assms(3) show "10 \<notin> set e" using e by (rule message_entries_plain)
  qed
  have b1: "text_lines ((lit ''=== ALL RECORD MESSAGES WITH DEVELOPER FIELDS ==='' @ [10]) @ [10])
      = [lit ''=== ALL RECORD MESSAGES WITH DEVELOPER FIELDS ==='', []]"
    by (rule banner_lines) (simp add: lit_def)
  have b2: "text_lines (([10] @ lit ''=== ALL DEVELOPER FIELD DESCRIPTION MESSAGES ==='' @ [10]) @ [10])
      = [[], lit ''=== ALL DEVELOPER FIELD DESCRIPTION MESSAGES ==='', []]"
    by (rule banner_lines) (simp add: lit_def)
  have b3: "text_lines (([10] @ lit ''=== ALL DEVELOPER DATA ID MESSAGES ==='' @ [10]) @ [10])
      = [[], lit ''=== ALL DEVELOPER DATA ID MESSAGES ==='', []]"
    by (rule banner_lines) (simp add: lit_def)
  let ?b1 = "lit ''=== ALL RECORD MESSAGES WITH DEVELOPER FIELDS ==='' @ [10]"
  let ?b2 = "[10] @ lit ''=== ALL DEVELOPER FIELD DESCRIPTION MESSAGES ==='' @ [10]"
  let ?b3 = "[10] @ lit ''=== ALL DEVELOPER DATA ID MESSAGES ==='' @ [10]"
  have "text_lines (stdout_text (?b1 # ?E @ ?b2 # ?F @ ?b3 # ?G))
      = text_lines (?b1 @ [10]) @ concat (map (\<lambda>e. text_lines (e @ [10])) ?E)
        @ text_lines (?b2 @ [10]) @ concat (map (\<lambda>e. text_lines (e @ [10])) ?F)
        @ text_lines (?b3 @ [10]) @ concat (map (\<lambda>e. text_lines (e @ [10])) ?G)"
    unfolding text_lines_stdout by (rule concat_map_sections)
  also have "\<dots> = [lit ''=== ALL RECORD MESSAGES WITH DEVELOPER FIELDS ==='', []] @ ?E
        @ [[], lit ''=== ALL DEVELOPER FIELD DESCRIPTION MESSAGES ==='', []] @ ?F
        @ [[], lit ''=== ALL DEVELOPER DATA ID MESSAGES ==='', []] @ ?G"
    unfolding E F G b1 b2 b3 by (rule refl)
  finally have lines: "text_lines (stdout_text (?b1 # ?E @ ?b2 # ?F @ ?b3 # ?G))
      = [lit ''=== ALL RECORD MESSAGES WITH DEVELOPER FIELDS ==='', []] @ ?E
        @ [[], lit ''=== ALL DEVELOPER FIELD DESCRIPTION MESSAGES ==='', []] @ ?F
        @ [[], lit ''=== ALL DEVELOPER DATA ID MESSAGES ==='', []] @ ?G" .
  show ?thesis
    unfolding parse_fit_eq by (rule exI, rule conjI, rule refl, rule lines)
qed

text \<open>
  The lines of an entry written out, with \<open>None\<close> for what is absent, and the entries
  placed and counted among the lines of the output text.
\<close>

lemma record_line_text:
  "record_line fmt =
     (\<lambda>g. lit ''  '' @ (case name g of None \<Rightarrow> lit ''None'' | Some n \<Rightarrow> n) @ lit '': ''
          @ (case fvalue g of None \<Rightarrow> lit ''None'' | Some v \<Rightarrow> fmt v)
          @ lit '' ('' @ (case units g of None \<Rightarrow> lit ''None'' | Some t \<Rightarrow> t) @ lit '')'')"
  by (rule ext) (simp add: record_line_def format_str_def format_value_def)

lemma message_entry_text:
  "message_entry h fmt =
     (\<lambda>m. h # map (\<lambda>g. lit ''  '' @ (case name g of None \<Rightarrow> lit ''None'' | Some n \<Rightarrow> n)
                       @ lit '': ''
                       @ (case fvalue g of None \<Rightarrow> lit ''None'' | Some v \<Rightarrow> fmt v))
                (fields m) @ [[]])"
  by (rule ext) (simp add: message_entry_def field_line_def format_str_def format_value_def)

lemma record_header_text:
  "record_header fmt i r =
     lit ''Record #'' @ str_nat i @ lit '' timestamp=''
     @ (case find (\<lambda>f. name f = Some (lit ''timestamp'')) (fields r) of
          None \<Rightarrow> lit ''None''
        | Some t \<Rightarrow> (case fvalue t of None \<Rightarrow> lit ''None'' | Some v \<Rightarrow> fmt v))"
  by (simp add: record_header_def get_value_def format_value_def split: option.splits)

lemma reported_entry_text:
  assumes "plain_texts fmt (get_messages fitfile (lit ''record''))"
    and "plain_texts fmt (get_messages fitfile (lit ''field_description''))"
    and "plain_texts fmt (get_messages fitfile (lit ''developer_data_id''))"
    and "i < length (get_messages fitfile (lit ''record''))"
    and "reported u (get_messages fitfile (lit ''record'') ! i)"
  shows "\<exists>out pre suf. parse_fit u fmt fitfile = Inr out
     \<and> text_lines (stdout_text out)
         = pre @ [record_header fmt i (get_messages fitfile (lit ''record'') ! i)]
           @ map (record_line fmt) (fields (get_messages fitfile (lit ''record'') ! i)) @ [[]] @ suf
     \<and> count_list (text_lines (stdout_text out))
           (record_header fmt i (get_messages fitfile (lit ''record'') ! i)) = 1"
proof -
  let ?rs = "get_messages fitfile (lit ''record'')"
  let ?h = "record_header fmt i (?rs ! i)"
  let ?E1 = "record_entries u fmt 0 (take i ?rs)"
  let ?E2 = "record_entries u fmt (Suc i) (drop (Suc i) ?rs)"
  let ?F = "concat (map (message_entry (lit ''Field Description:'') fmt)
                     (get_messages fitfile (lit ''field_description'')))"
  let ?G = "concat (map (message_entry (lit ''Developer Data ID:'') fmt)
                     (get_messages fitfile (lit ''developer_data_id'')))"
  let ?l1 = "[lit ''=== ALL RECORD MESSAGES WITH DEVELOPER FIELDS ==='', []]"
  let ?l2 = "[[], lit ''=== ALL DEVELOPER FIELD DESCRIPTION MESSAGES ==='', []]"
  let ?l3 = "[[], lit ''=== ALL DEVELOPER DATA ID MESSAGES ==='', []]"
  obtain out where out: "parse_fit u fmt fitfile = Inr out"
    and lines: "text_lines (stdout_text out)
        = ?l1 @ record_entries u fmt 0 ?rs @ ?l2 @ ?F @ ?l3 @ ?G"
    using output_text_lines [OF assms(1-3)] by blast
  have split: "record_entries u fmt 0 ?rs = ?E1 @ record_entry u fmt i (?rs ! i) @ ?E2"
    using record_entries_split [OF assms(4), of u fmt 0] by simp
  obtain t where t: "?h = 82 # t" using record_header_hd by blast
  have l1: "count_list ?l1 ?h = 0" using t by (simp add: lit_def)
  have l2: "count_list ?l2 ?h = 0" using t by (simp add: lit_def)
  have l3: "count_list ?l3 ?h = 0" using t by (simp add: lit_def)
  have "?h \<notin> set ?E1" using assms(4) by (intro header_not_in_entries) simp
  then have E1: "count_list ?E1 ?h = 0" by (rule count_notin)
  have "?h \<notin> set ?E2" by (intro header_not_in_entries) simp
  then have E2: "count_list ?E2 ?h = 0" by (rule count_notin)
  have e: "count_list (record_entry u fmt i (?rs ! i)) ?h = 1"
    using assms(5) by (rule count_record_entry)
  have "?h \<notin> set ?F"
    using set_message_entries [of ?h "lit ''Field Description:''" fmt] t
    by (auto simp: lit_def)
  then have F: "count_list ?F ?h = 0" by (rule count_notin)
  have "?h \<notin> set ?G"
    using set_message_entries [of ?h "lit ''Developer Data ID:''" fmt] t
    by (auto simp: lit_def)
  then have G: "count_list ?G ?h = 0" by (rule count_notin)
  have count: "count_list (text_lines (stdout_text out)) ?h = 1"
    unfolding lines split count_list_append l1 l2 l3 E1 E2 e F G by simp
  have "record_entry u fmt i (?rs ! i) = [?h] @ map (record_line fmt) (fields (?rs ! i)) @ [[]]"
    using assms(5) by (simp add: record_entry_def)
  then have "text_lines (stdout_text out)
      = (?l1 @ ?E1) @ [?h] @ map (record_line fmt) (fields (?rs ! i)) @ [[]]
        @ (?E2 @ ?l2 @ ?F @ ?l3 @ ?G)"
    unfolding lines split by simp
  with out count show ?thesis by blast
qed

lemma field_description_text:
  assumes "plain_texts fmt (get_messages fitfile (lit ''record''))"
    and "plain_texts fmt (get_messages fitfile (lit ''field_description''))"
    and "plain_texts fmt (get_messages fitfile (lit ''developer_data_id''))"
  shows "\<exists>out pre suf. parse_fit u fmt fitfile = Inr out
     \<and> text_lines (stdout_text out)
         = pre @ concat (map (message_entry (lit ''Field Description:'') fmt)
                           (get_messages fitfile (lit ''field_description''))) @ suf
     \<and> count_list (text_lines (stdout_text out)) (lit ''Field Description:'')
         = length (get_messages fitfile (lit ''field_description''))"
proof -
  let ?h = "lit ''Field Description:''"
  let ?E = "record_entries u fmt 0 (get_messages fitfile (lit ''record''))"
  let ?ms = "get_messages fitfile (lit ''field_description'')"
  let ?F = "concat (map (message_entry ?h fmt) ?ms)"
  let ?G = "concat (map (message_entry (lit ''Developer Data ID:'') fmt)
                     (get_messages fitfile (lit ''developer_data_id'')))"
  let ?l1 = "[lit ''=== ALL RECORD MESSAGES WITH DEVELOPER FIELDS ==='', []]"
  let ?l2 = "[[], lit ''=== ALL DEVELOPER FIELD DESCRIPTION MESSAGES ==='', []]"
  let ?l3 = "[[], lit ''=== ALL DEVELOPER DATA ID MESSAGES ==='', []]"
  obtain out where out: "parse_fit u fmt fitfile = Inr out"
    and lines: "text_lines (stdout_text out) = ?l1 @ ?E @ ?l2 @ ?F @ ?l3 @ ?G"
    using output_text_lines [OF assms] by blast
  have l1: "count_list ?l1 ?h = 0" by (simp add: lit_def)
  have l2: "count_list ?l2 ?h = 0" by (simp add: lit_def)
  have l3: "count_list ?l3 ?h = 0" by (simp add: lit_def)
  have E: "count_list ?E ?h = 0"
    using description_header_not_in_records by (rule count_notin)
  have G: "count_list ?G ?h = 0"
    using description_header_not_in_ids by (rule count_notin)
  have "?h \<noteq> 32 # t" for t by (simp add: lit_def)
  moreover have "?h \<noteq> []" by (simp add: lit_def)
  ultimately have F: "count_list ?F ?h = length ?ms" by (rule count_message_entries)
  have count: "count_list (text_lines (stdout_text out)) ?h = length ?ms"
    unfolding lines count_list_append l1 l2 l3 E F G by simp
  have "text_lines (stdout_text out) = (?l1 @ ?E @ ?l2) @ ?F @ (?l3 @ ?G)"
    unfolding lines by simp
  with out count show ?thesis by blast
qed

text \<open>
  For an object that carries the indicator with the value true, the condition of the
  first comprehension is the truth value of the object.
\<close>

lemma first_operand_decides:
  "field f = Some d \<Longrightarrow> is_developer d = Some True \<Longrightarrow> is_developer_field f = Inr (truth d)"
  by (simp add: is_developer_field_eq developer_origin_def)

section \<open>The fallback filter\<close>

text \<open>
  C2: the two checks of the fallback filter are redundant. For every string \<open>s\<close>,
  ("lactate" is in the lower-cased \<open>s\<close>, or "Lactate" is in \<open>s\<close>) is the same as
  ("lactate" is in the lower-cased \<open>s\<close>), whatever the lower-casing of the code points
  outside ASCII is; so the condition of the second comprehension is the
  case-insensitive check alone.
\<close>

theorem fallback_checks_redundant:
  "(str_in (lit ''lactate'') (lower u s) \<or> str_in (lit ''Lactate'') s)
     = str_in (lit ''lactate'') (lower u s)
   \<and> is_lactate_field u f = str_in (lit ''lactate'') (lower u (or_empty (name f)))"
  using Lactate_in_lower [of s u] Lactate_in_lower [of "or_empty (name f)" u]
  by (auto simp: is_lactate_field_def)

theorem fallback_checks_redundant_witness:
  "str_in (lit ''Lactate'') (lit ''Lactate Threshold'')
   \<and> str_in (lit ''lactate'') (lower (\<lambda>pre c suf. [c]) (lit ''Lactate Threshold''))
   \<and> is_lactate_field (\<lambda>pre c suf. [c])
        \<lparr>field = None, name = Some (lit ''Lactate Threshold''), fvalue = Some (4::nat),
         units = None\<rparr>"
  using fallback_checks_redundant [of "\<lambda>pre c suf. [c]" "lit ''Lactate Threshold''"
      "\<lparr>field = None, name = Some (lit ''Lactate Threshold''), fvalue = Some (4::nat),
        units = None\<rparr>"]
  by (simp add: lit_def lower_def lower_codepoint_def or_empty_def)

section \<open>Records with a developer field\<close>



section \<open>Records found by name\<close>

text \<open>
  C4 as it is worded does not hold of the output text. The one record of
  \<open>broken_record_file\<close> has no definition object on its field and a name that contains
  "lactate", so it is reported; the name also holds a line break followed by the text
  of the record's header, and the output text has that header line twice.
\<close>

theorem lactate_record_header_twice_in_text:
  "map field (fields (get_messages broken_record_file (lit ''record'') ! 0)) = [None]
   \<and> str_in (lit ''lactate'')
        (lower plain_lower (lit ''lactate'' @ [10] @ lit ''Record #0 timestamp=None'' @ [10] @ lit ''z''))
   \<and> parse_fit plain_lower id broken_record_file =
       Inr [lit ''=== ALL RECORD MESSAGES WITH DEVELOPER FIELDS ==='' @ [10],
            lit ''Record #0 timestamp=None'',
            lit ''  lactate'' @ [10] @ lit ''Record #0 timestamp=None'' @ [10] @ lit ''z: v (u)'',
            [],
            [10] @ lit ''=== ALL DEVELOPER FIELD DESCRIPTION MESSAGES ==='' @ [10],
            [10] @ lit ''=== ALL DEVELOPER DATA ID MESSAGES ==='' @ [10]]
   \<and> text_lines (stdout_text
        [lit ''=== ALL RECORD MESSAGES WITH DEVELOPER FIELDS ==='' @ [10],
         lit ''Record #0 timestamp=None'',
         lit ''  lactate'' @ [10] @ lit ''Record #0 timestamp=None'' @ [10] @ lit ''z: v (u)'',
         [],
         [10] @ lit ''=== ALL DEVELOPER FIELD DESCRIPTION MESSAGES ==='' @ [10],
         [10] @ lit ''=== ALL DEVELOPER DATA ID MESSAGES ==='' @ [10]])
     = [lit ''=== ALL RECORD MESSAGES WITH DEVELOPER FIELDS ==='', [],
        lit ''Record #0 timestamp=None'',
        lit ''  lactate'',
        lit ''Record #0 timestamp=None'',
        lit ''z: v (u)'',
        [],
        [], lit ''=== ALL DEVELOPER FIELD DESCRIPTION MESSAGES ==='', [],
        [], lit ''=== ALL DEVELOPER DATA ID MESSAGES ==='', []]
   \<and> count_list
        [lit ''=== ALL RECORD MESSAGES WITH DEVELOPER FIELDS ==='', [],
         lit ''Record #0 timestamp=None'',
         lit ''  lactate'',
         lit ''Record #0 timestamp=None'',
         lit ''z: v (u)'',
         [],
         [], lit ''=== ALL DEVELOPER FIELD DESCRIPTION MESSAGES ==='', [],
         [], lit ''=== ALL DEVELOPER DATA ID MESSAGES ==='', []]
        (lit ''Record #0 timestamp=None'') = 2"
  by code_simp

text \<open>
  C4, amended: a record with no developer-origin field and with a field whose name
  contains "lactate" in any letter case is found by the name filter, and its entry is
  printed exactly once: the output holds the header of the record, the lines of its
  fields and the empty line, and the header is the text of exactly one call of
  \<open>print\<close>, so the two checks never print the entry twice. When no name, no units and no
  text of a value in the file holds a line break, the entry is a run of lines of the
  output text and the header is exactly one of its lines.
\<close>

theorem lactate_record_printed_once:
  assumes "i < length (get_messages fitfile (lit ''record''))"
    and "r = get_messages fitfile (lit ''record'') ! i"
    and "\<forall>f \<in> set (fields r). \<not> (\<exists>d. field f = Some d \<and> truth d \<and> is_developer d = Some True)"
    and "g \<in> set (fields r)"
    and "name g = Some n"
    and "str_in (lit ''lactate'') (lower u n)"
    and "header = lit ''Record #'' @ str_nat i @ lit '' timestamp=''
           @ (case find (\<lambda>f. name f = Some (lit ''timestamp'')) (fields r) of
                None \<Rightarrow> lit ''None''
              | Some t \<Rightarrow> (case fvalue t of None \<Rightarrow> lit ''None'' | Some v \<Rightarrow> fmt v))"
    and "entry = [header]
           @ map (\<lambda>f. lit ''  '' @ (case name f of None \<Rightarrow> lit ''None'' | Some n \<Rightarrow> n) @ lit '': ''
                      @ (case fvalue f of None \<Rightarrow> lit ''None'' | Some v \<Rightarrow> fmt v)
                      @ lit '' ('' @ (case units f of None \<Rightarrow> lit ''None'' | Some t \<Rightarrow> t)
                      @ lit '')'') (fields r)
           @ [[]]"
  shows "dev_fields u r =
       Inr (filter (\<lambda>f. str_in (lit ''lactate'') (lower u (or_empty (name f)))) (fields r))
     \<and> (\<exists>out pre suf. parse_fit u fmt fitfile = Inr out
          \<and> out = pre @ entry @ suf \<and> count_list out header = 1)
     \<and> (plain_texts fmt (get_messages fitfile (lit ''record''))
          \<and> plain_texts fmt (get_messages fitfile (lit ''field_description''))
          \<and> plain_texts fmt (get_messages fitfile (lit ''developer_data_id''))
        \<longrightarrow> (\<exists>out pre suf. parse_fit u fmt fitfile = Inr out
               \<and> text_lines (stdout_text out) = pre @ entry @ suf
               \<and> count_list (text_lines (stdout_text out)) header = 1))"
proof -
  let ?r = "get_messages fitfile (lit ''record'') ! i"
  have "filter developer_origin (fields r) = []"
    using assms(3) by (simp add: filter_empty_conv developer_origin_iff)
  then have first: "dev_fields u r =
       Inr (filter (\<lambda>f. str_in (lit ''lactate'') (lower u (or_empty (name f)))) (fields r))"
    by (simp add: dev_fields_eq is_lactate_field_fun)
  have "is_lactate_field u g"
    using assms(5,6) by (simp add: is_lactate_field_iff or_empty_Some)
  then have rep: "reported u ?r"
    using assms(2,4) lactate_reported by blast
  have header: "header = record_header fmt i ?r"
    unfolding assms(7) record_header_text assms(2) by (rule refl)
  have entry: "entry = [record_header fmt i ?r] @ map (record_line fmt) (fields ?r) @ [[]]"
    unfolding assms(8) header record_line_text assms(2) by (rule refl)
  have second: "\<exists>out pre suf. parse_fit u fmt fitfile = Inr out
          \<and> out = pre @ entry @ suf \<and> count_list out header = 1"
    using reported_entry [OF assms(1) rep, of fmt] unfolding entry header by auto
  have third: "\<exists>out pre suf. parse_fit u fmt fitfile = Inr out
               \<and> text_lines (stdout_text out) = pre @ entry @ suf
               \<and> count_list (text_lines (stdout_text out)) header = 1"
    if "plain_texts fmt (get_messages fitfile (lit ''record''))
          \<and> plain_texts fmt (get_messages fitfile (lit ''field_description''))
          \<and> plain_texts fmt (get_messages fitfile (lit ''developer_data_id''))"
  proof -
    from that have p: "plain_texts fmt (get_messages fitfile (lit ''record''))"
      "plain_texts fmt (get_messages fitfile (lit ''field_description''))"
      "plain_texts fmt (get_messages fitfile (lit ''developer_data_id''))" by simp_all
    show ?thesis
      using reported_entry_text [OF p assms(1) rep] unfolding entry header by auto
  qed
  from first second third show ?thesis by blast
qed

theorem lactate_record_printed_once_witness:
  "dev_fields plain_lower (Message [threshold_field]) = Inr [threshold_field]
   \<and> (\<exists>out pre suf. parse_fit plain_lower str_nat example_file = Inr out
        \<and> out = pre @ [lit ''Record #2 timestamp=None'',
                        lit ''  Lactate Threshold: 4 (mmol)'', []] @ suf
        \<and> count_list out (lit ''Record #2 timestamp=None'') = 1)
   \<and> (\<exists>out pre suf. parse_fit plain_lower str_nat example_file = Inr out
        \<and> text_lines (stdout_text out)
            = pre @ [lit ''Record #2 timestamp=None'',
                     lit ''  Lactate Threshold: 4 (mmol)'', []] @ suf
        \<and> count_list (text_lines (stdout_text out)) (lit ''Record #2 timestamp=None'') = 1)"
  using lactate_record_printed_once
    [of 2 example_file "Message [threshold_field]" threshold_field "lit ''Lactate Threshold''"
        plain_lower "lit ''Record #2 timestamp=None''" str_nat
        "[lit ''Record #2 timestamp=None'', lit ''  Lactate Threshold: 4 (mmol)'', []]"]
  by (simp add: example_file_def example_records_def developer_field_def timestamp_field_def
      heart_rate_field_def threshold_field_def bare_field_def plain_texts_def lit_def
      str_nat.simps lower_def lower_codepoint_def plain_lower_def or_empty_def)

section \<open>Records without a timestamp\<close>



section \<open>Files without a match\<close>

text \<open>
  C5: when no field of any record has a developer-origin indicator that is true and no
  field name contains "lactate" in any letter case, the record section prints its
  banner and nothing else: the banner of the next section follows it directly.
\<close>

theorem no_match_prints_banner_only:
  assumes "\<forall>r \<in> set (get_messages fitfile (lit ''record'')). \<forall>f \<in> set (fields r).
       \<not> (\<exists>d. field f = Some d \<and> is_developer d = Some True)
       \<and> \<not> str_in (lit ''lactate'') (lower u (case name f of None \<Rightarrow> [] | Some n \<Rightarrow> n))"
  shows "record_section u fmt fitfile [] =
       Inr [lit ''=== ALL RECORD MESSAGES WITH DEVELOPER FIELDS ==='' @ [10]]
     \<and> (\<exists>rest. parse_fit u fmt fitfile =
          Inr ((lit ''=== ALL RECORD MESSAGES WITH DEVELOPER FIELDS ==='' @ [10])
               # ([10] @ lit ''=== ALL DEVELOPER FIELD DESCRIPTION MESSAGES ==='' @ [10])
               # rest))"
proof -
  have "\<not> reported u r" if "r \<in> set (get_messages fitfile (lit ''record''))" for r
    using assms that
    by (auto simp: reported_def filter_empty_conv developer_origin_iff is_lactate_field_iff
        or_empty_case)
  then have "record_entries u fmt 0 (get_messages fitfile (lit ''record'')) = []"
    by (rule record_entries_none)
  then show ?thesis
    by (simp add: record_section_eq parse_fit_after_records after_records_def)
qed

theorem no_match_prints_banner_only_witness:
  "record_section plain_lower str_nat plain_file [] =
       Inr [lit ''=== ALL RECORD MESSAGES WITH DEVELOPER FIELDS ==='' @ [10]]
     \<and> (\<exists>rest. parse_fit plain_lower str_nat plain_file =
          Inr ((lit ''=== ALL RECORD MESSAGES WITH DEVELOPER FIELDS ==='' @ [10])
               # ([10] @ lit ''=== ALL DEVELOPER FIELD DESCRIPTION MESSAGES ==='' @ [10])
               # rest))"
  by (rule no_match_prints_banner_only)
     (simp add: plain_file_def timestamp_field_def heart_rate_field_def bare_field_def lit_def
        lower_def lower_codepoint_def plain_lower_def)

section \<open>The order of the two filters\<close>



section \<open>The field descriptions\<close>

text \<open>
  C8 as it is worded does not hold of the output text. \<open>broken_description_file\<close> has one
  message of the type \<open>field_description\<close>; the value of its field holds a line break
  followed by the text of the header, and the output text has two lines
  \<open>Field Description:\<close>.
\<close>

theorem field_description_header_twice_in_text:
  "length (get_messages broken_description_file (lit ''field_description'')) = 1
   \<and> parse_fit plain_lower id broken_description_file =
       Inr [lit ''=== ALL RECORD MESSAGES WITH DEVELOPER FIELDS ==='' @ [10],
            [10] @ lit ''=== ALL DEVELOPER FIELD DESCRIPTION MESSAGES ==='' @ [10],
            lit ''Field Description:'',
            lit ''  field_name: x'' @ [10] @ lit ''Field Description:'',
            [],
            [10] @ lit ''=== ALL DEVELOPER DATA ID MESSAGES ==='' @ [10]]
   \<and> text_lines (stdout_text
        [lit ''=== ALL RECORD MESSAGES WITH DEVELOPER FIELDS ==='' @ [10],
         [10] @ lit ''=== ALL DEVELOPER FIELD DESCRIPTION MESSAGES ==='' @ [10],
         lit ''Field Description:'',
         lit ''  field_name: x'' @ [10] @ lit ''Field Description:'',
         [],
         [10] @ lit ''=== ALL DEVELOPER DATA ID MESSAGES ==='' @ [10]])
     = [lit ''=== ALL RECORD MESSAGES WITH DEVELOPER FIELDS ==='', [],
        [], lit ''=== ALL DEVELOPER FIELD DESCRIPTION MESSAGES ==='', [],
        lit ''Field Description:'',
        lit ''  field_name: x'',
        lit ''Field Description:'',
        [],
        [], lit ''=== ALL DEVELOPER DATA ID MESSAGES ==='', []]
   \<and> count_list
        [lit ''=== ALL RECORD MESSAGES WITH DEVELOPER FIELDS ==='', [],
         [], lit ''=== ALL DEVELOPER FIELD DESCRIPTION MESSAGES ==='', [],
         lit ''Field Description:'',
         lit ''  field_name: x'',
         lit ''Field Description:'',
         [],
         [], lit ''=== ALL DEVELOPER DATA ID MESSAGES ==='', []]
        (lit ''Field Description:'') = 2"
  by code_simp

text \<open>
  C8, amended: for a file with \<open>N\<close> messages of the type \<open>field_description\<close>, the header
  \<open>Field Description:\<close> is the text of exactly \<open>N\<close> calls of \<open>print\<close> in the whole run, and
  the output holds, for the messages in the order the file gives them, the header, then
  one line with name and value per field in the order of the message, then the empty
  line. When no name, no units and no text of a value in the file holds a line break,
  these entries are a run of lines of the output text and exactly \<open>N\<close> of its lines are
  \<open>Field Description:\<close>.
\<close>

theorem field_description_headers:
  assumes "entries = concat (map (\<lambda>m. lit ''Field Description:''
                 # map (\<lambda>f. lit ''  '' @ (case name f of None \<Rightarrow> lit ''None'' | Some n \<Rightarrow> n)
                            @ lit '': ''
                            @ (case fvalue f of None \<Rightarrow> lit ''None'' | Some v \<Rightarrow> fmt v))
                     (fields m)
                 @ [[]])
              (get_messages fitfile (lit ''field_description'')))"
  shows "(\<exists>out pre suf. parse_fit u fmt fitfile = Inr out
          \<and> out = pre @ entries @ suf
          \<and> count_list out (lit ''Field Description:'')
              = length (get_messages fitfile (lit ''field_description'')))
     \<and> (plain_texts fmt (get_messages fitfile (lit ''record''))
          \<and> plain_texts fmt (get_messages fitfile (lit ''field_description''))
          \<and> plain_texts fmt (get_messages fitfile (lit ''developer_data_id''))
        \<longrightarrow> (\<exists>out pre suf. parse_fit u fmt fitfile = Inr out
               \<and> text_lines (stdout_text out) = pre @ entries @ suf
               \<and> count_list (text_lines (stdout_text out)) (lit ''Field Description:'')
                   = length (get_messages fitfile (lit ''field_description''))))"
proof -
  let ?h = "lit ''Field Description:''"
  let ?ms = "get_messages fitfile (lit ''field_description'')"
  let ?pre = "(lit ''=== ALL RECORD MESSAGES WITH DEVELOPER FIELDS ==='' @ [10])
       # record_entries u fmt 0 (get_messages fitfile (lit ''record''))
       @ [[10] @ lit ''=== ALL DEVELOPER FIELD DESCRIPTION MESSAGES ==='' @ [10]]"
  let ?suf = "([10] @ lit ''=== ALL DEVELOPER DATA ID MESSAGES ==='' @ [10])
       # concat (map (message_entry (lit ''Developer Data ID:'') fmt)
                   (get_messages fitfile (lit ''developer_data_id'')))"
  have entries: "entries = concat (map (message_entry ?h fmt) ?ms)"
    unfolding assms message_entry_text by (rule refl)
  have out: "parse_fit u fmt fitfile = Inr (?pre @ entries @ ?suf)"
    by (simp add: parse_fit_eq entries)
  have "?h \<notin> set ?pre"
    using description_header_not_in_records [of u fmt 0 "get_messages fitfile (lit ''record'')"]
    by (simp add: lit_def)
  then have a: "count_list ?pre ?h = 0" by (rule count_notin)
  have "?h \<noteq> 32 # t" for t by (simp add: lit_def)
  moreover have "?h \<noteq> []" by (simp add: lit_def)
  ultimately have b: "count_list entries ?h = length ?ms"
    unfolding entries by (rule count_message_entries)
  have "?h \<notin> set ?suf"
    using description_header_not_in_ids [of fmt "get_messages fitfile (lit ''developer_data_id'')"]
    by (simp add: lit_def)
  then have c: "count_list ?suf ?h = 0" by (rule count_notin)
  have "count_list (?pre @ entries @ ?suf) ?h = length ?ms"
    unfolding count_list_append a b c by simp
  with out have first: "\<exists>out pre suf. parse_fit u fmt fitfile = Inr out
          \<and> out = pre @ entries @ suf \<and> count_list out ?h = length ?ms"
    by blast
  have second: "\<exists>out pre suf. parse_fit u fmt fitfile = Inr out
               \<and> text_lines (stdout_text out) = pre @ entries @ suf
               \<and> count_list (text_lines (stdout_text out)) ?h = length ?ms"
    if "plain_texts fmt (get_messages fitfile (lit ''record''))
          \<and> plain_texts fmt (get_messages fitfile (lit ''field_description''))
          \<and> plain_texts fmt (get_messages fitfile (lit ''developer_data_id''))"
  proof -
    from that have p: "plain_texts fmt (get_messages fitfile (lit ''record''))"
      "plain_texts fmt (get_messages fitfile (lit ''field_description''))"
      "plain_texts fmt (get_messages fitfile (lit ''developer_data_id''))" by simp_all
    show ?thesis
      using field_description_text [OF p] unfolding entries by auto
  qed
  from first second show ?thesis by blast
qed

theorem field_description_headers_witness:
  "(\<exists>out pre suf. parse_fit plain_lower str_nat example_file = Inr out
      \<and> out = pre @ [lit ''Field Description:'', lit ''  heart_rate: 150'', [],
                      lit ''Field Description:'', []] @ suf
      \<and> count_list out (lit ''Field Description:'') = 2)
   \<and> (\<exists>out pre suf. parse_fit plain_lower str_nat example_file = Inr out
        \<and> text_lines (stdout_text out)
            = pre @ [lit ''Field Description:'', lit ''  heart_rate: 150'', [],
                     lit ''Field Description:'', []] @ suf
        \<and> count_list (text_lines (stdout_text out)) (lit ''Field Description:'') = 2)"
  using field_description_headers
    [of "[lit ''Field Description:'', lit ''  heart_rate: 150'', [],
          lit ''Field Description:'', []]" str_nat example_file plain_lower]
  by (simp add: example_file_def example_records_def developer_field_def timestamp_field_def
      heart_rate_field_def threshold_field_def bare_field_def plain_texts_def lit_def
      str_nat.simps numeral_2_eq_2)

section \<open>Attributes that are not there\<close>

text \<open>
  C7: a field with no name or with no developer-origin indicator never makes the
  script raise. The run returns its output for every file; the condition of the first
  comprehension returns a truth value for every field, and \<open>False\<close> when the field has
  no definition object or the object has no indicator; a field with no name is matched
  as the empty string, which the name filter rejects, and is printed with the name
  \<open>None\<close> in either kind of section.
\<close>

theorem missing_attributes_never_raise:
  "(\<exists>out. parse_fit u fmt fitfile = Inr out)
   \<and> (\<exists>b. is_developer_field f = Inr b)
   \<and> (field f = None \<or> (\<exists>d. field f = Some d \<and> is_developer d = None)
        \<longrightarrow> is_developer_field f = Inr False)
   \<and> (name f = None
        \<longrightarrow> or_empty (name f) = [] \<and> \<not> is_lactate_field u f
          \<and> print_record_fields fmt [f] out
              = out @ [lit ''  None: '' @ format_value fmt (fvalue f)
                       @ lit '' ('' @ format_str (units f) @ lit '')'']
          \<and> print_fields fmt [f] out = out @ [lit ''  None: '' @ format_value fmt (fvalue f)])"
proof -
  have "\<exists>out. parse_fit u fmt fitfile = Inr out"
    by (simp add: parse_fit_eq)
  moreover have "\<exists>b. is_developer_field f = Inr b"
    by (simp add: is_developer_field_eq)
  moreover have "is_developer_field f = Inr False"
    if "field f = None \<or> (\<exists>d. field f = Some d \<and> is_developer d = None)"
    using that by (auto simp: is_developer_field_eq developer_origin_def)
  moreover have "or_empty (name f) = [] \<and> \<not> is_lactate_field u f
          \<and> print_record_fields fmt [f] out
              = out @ [lit ''  None: '' @ format_value fmt (fvalue f)
                       @ lit '' ('' @ format_str (units f) @ lit '')'']
          \<and> print_fields fmt [f] out = out @ [lit ''  None: '' @ format_value fmt (fvalue f)]"
    if "name f = None"
    using that
    by (simp add: or_empty_def is_lactate_field_def lower_def print_def format_str_def lit_def)
  ultimately show ?thesis by blast
qed

theorem missing_attributes_never_raise_witness:
  "(\<exists>out. parse_fit plain_lower str_nat example_file = Inr out)
   \<and> is_developer_field bare_field = Inr False
   \<and> is_developer_field timestamp_field = Inr False
   \<and> or_empty (name bare_field) = [] \<and> \<not> is_lactate_field plain_lower bare_field
   \<and> print_record_fields str_nat [bare_field] [] = [lit ''  None: None (None)'']
   \<and> print_fields str_nat [bare_field] [] = [lit ''  None: None'']"
  using missing_attributes_never_raise [of plain_lower str_nat example_file bare_field "[]"]
    missing_attributes_never_raise [of plain_lower str_nat example_file timestamp_field "[]"]
  by (simp add: bare_field_def timestamp_field_def format_value_def format_str_def lit_def)

text \<open>
  C9: a field whose definition object is absent or false is never counted by the
  developer-origin path, whatever indicator the object carries: the condition of the
  first comprehension is \<open>False\<close> for it and it is in no result of that comprehension.
  When it is in \<open>dev_fields\<close> all the same, the first comprehension found nothing and the
  field is there because its name contains "lactate"; a record all of whose fields are
  such is reported by the name filter alone.
\<close>

theorem absent_or_false_definition_not_developer:
  assumes "field f = None \<or> (\<exists>d. field f = Some d \<and> \<not> truth d)"
  shows "is_developer_field f = Inr False
     \<and> (\<forall>ds. comprehension is_developer_field fs = Inr ds \<longrightarrow> f \<notin> set ds)
     \<and> (\<forall>d. dev_fields u r = Inr d \<and> f \<in> set d
           \<longrightarrow> comprehension is_developer_field (fields r) = Inr []
               \<and> str_in (lit ''lactate'') (lower u (or_empty (name f))))
     \<and> ((\<forall>g \<in> set (fields r). field g = None \<or> (\<exists>d. field g = Some d \<and> \<not> truth d))
           \<longrightarrow> dev_fields u r =
                Inr (filter (\<lambda>g. str_in (lit ''lactate'') (lower u (or_empty (name g))))
                       (fields r)))"
proof -
  have nd: "\<not> developer_origin f" using assms by (auto simp: developer_origin_def)
  then have "is_developer_field f = Inr False" by (simp add: is_developer_field_eq)
  moreover have "f \<notin> set ds" if "comprehension is_developer_field fs = Inr ds" for ds
    using that nd by (auto simp: developer_comprehension)
  moreover have "comprehension is_developer_field (fields r) = Inr []
               \<and> str_in (lit ''lactate'') (lower u (or_empty (name f)))"
    if "dev_fields u r = Inr d \<and> f \<in> set d" for d
    using that nd
    by (auto simp: dev_fields_eq developer_comprehension is_lactate_field_iff split: if_splits)
  moreover have "dev_fields u r =
                Inr (filter (\<lambda>g. str_in (lit ''lactate'') (lower u (or_empty (name g))))
                       (fields r))"
    if "\<forall>g \<in> set (fields r). field g = None \<or> (\<exists>d. field g = Some d \<and> \<not> truth d)"
  proof -
    have "\<not> developer_origin g" if "g \<in> set (fields r)" for g
      using \<open>\<forall>g \<in> set (fields r). field g = None \<or> (\<exists>d. field g = Some d \<and> \<not> truth d)\<close> that
      by (auto simp: developer_origin_def)
    then have "filter developer_origin (fields r) = []"
      by (simp add: filter_empty_conv)
    then show ?thesis by (simp add: dev_fields_eq is_lactate_field_fun)
  qed
  ultimately show ?thesis by blast
qed

theorem absent_or_false_definition_not_developer_witness:
  "field false_developer_field = Some \<lparr>truth = False, is_developer = Some True\<rparr>
   \<and> is_developer_field false_developer_field = Inr False
   \<and> dev_fields plain_lower (Message [false_developer_field]) = Inr []
   \<and> field false_lactate_field = Some \<lparr>truth = False, is_developer = Some True\<rparr>
   \<and> is_developer_field false_lactate_field = Inr False
   \<and> comprehension is_developer_field (fields (Message [false_lactate_field])) = Inr []
   \<and> dev_fields plain_lower (Message [false_lactate_field]) = Inr [false_lactate_field]
   \<and> field threshold_field = None
   \<and> is_developer_field threshold_field = Inr False
   \<and> is_developer_field developer_field = Inr True"
proof -
  have a: "field false_developer_field = None
      \<or> (\<exists>d. field false_developer_field = Some d \<and> \<not> truth d)"
    by (simp add: false_developer_field_def)
  have b: "field false_lactate_field = None
      \<or> (\<exists>d. field false_lactate_field = Some d \<and> \<not> truth d)"
    by (simp add: false_lactate_field_def)
  have c: "field threshold_field = None \<or> (\<exists>d. field threshold_field = Some d \<and> \<not> truth d)"
    by (simp add: threshold_field_def)
  have t: "is_developer_field developer_field = Inr True"
    using first_operand_decides [of developer_field "\<lparr>truth = True, is_developer = Some True\<rparr>"]
    by (simp add: developer_field_def)
  show ?thesis
    using absent_or_false_definition_not_developer
        [OF a, of "[]" plain_lower "Message [false_developer_field]"]
      absent_or_false_definition_not_developer
        [OF b, of "[]" plain_lower "Message [false_lactate_field]"]
      absent_or_false_definition_not_developer
        [OF c, of "[]" plain_lower "Message [threshold_field]"]
      t
    by (simp add: false_developer_field_def false_lactate_field_def threshold_field_def
        lit_def lower_def lower_codepoint_def plain_lower_def or_empty_def)
qed

end
